theory Spec2Isabelle
  imports Main "HOL-Library.Word"
begin

section \<open>The voxel volume of main_file.cpp\<close>

text \<open>
  The program \<^verbatim>\<open>main_file.cpp\<close> creates a 3-D image of \<^verbatim>\<open>unsigned short\<close>
  voxels, fills it, writes six voxels and scans the whole image for its maximum.
  The scan is written out in \<^verbatim>\<open>main\<close>; the class \<^verbatim>\<open>MyImage3D\<close> it works on is
  declared in \<^verbatim>\<open>MyImage3D.h\<close>, which is not among the source files, so its
  operations are modelled from the specification.
\<close>

subsection \<open>Data model\<close>

text \<open>A voxel is a C++ \<^verbatim>\<open>unsigned short\<close>: 16 bits, compared as an unsigned number.\<close>

type_synonym sample = "16 word"

text \<open>
  Modelled from the spec: the error kinds \<open>InvalidDimension\<close>, \<open>OutOfBounds\<close> and
  \<open>EmptyVolume\<close> (the class that would raise them, \<^verbatim>\<open>MyImage3D\<close>, is missing).
  \<open>Uninitialised\<close> is not one of the spec's kinds: it marks a read of a cell that was
  allocated but never filled or written, whose content the spec leaves undefined, so
  that no statement can rest on such a content.
\<close>

datatype error = InvalidDimension | OutOfBounds | EmptyVolume | Uninitialised

text \<open>
  Modelled from the spec: the class \<^verbatim>\<open>MyImage3D\<close> (file \<^verbatim>\<open>MyImage3D.h\<close> is missing).
  The three extents are C++ \<^verbatim>\<open>int\<close>s; the storage is a dense buffer with one cell for
  each coordinate triple, \<open>None\<close> while the cell is undefined. Extents and loop
  counters are mathematical integers here: a counter of the source stays below an
  extent, so its increment cannot overflow an \<^verbatim>\<open>int\<close>.
\<close>

record volume =
  depth :: int
  rows :: int
  cols :: int
  voxels :: "sample option list"

text \<open>
  Modelled from the spec: the default constructor of \<^verbatim>\<open>MyImage3D\<close>
  (\<^verbatim>\<open>MyImage3D image3d;\<close>), the volume that was never allocated.
\<close>

definition MyImage3D_new :: volume where
  "MyImage3D_new = \<lparr>depth = 0, rows = 0, cols = 0, voxels = []\<rparr>"

text \<open>
  Modelled from the spec: a volume is allocated once its three extents are positive
  (the spec knows no other state than allocated and unallocated).
\<close>

definition is_allocated :: "volume \<Rightarrow> bool" where
  "is_allocated vol \<longleftrightarrow> 0 < depth vol \<and> 0 < rows vol \<and> 0 < cols vol"

text \<open>
  The representation invariant: the buffer holds exactly one cell for each coordinate
  triple. The never-allocated volume has it, \<open>Set\<close> establishes it, and a fill or a
  write keeps it.
\<close>

definition volume_inv :: "volume \<Rightarrow> bool" where
  "volume_inv vol \<longleftrightarrow>
     0 \<le> depth vol \<and> 0 \<le> rows vol \<and> 0 \<le> cols vol \<and>
     length (voxels vol) = nat (depth vol * rows vol * cols vol)"

text \<open>Every cell has been populated, by a fill or by a write.\<close>

definition fully_defined :: "volume \<Rightarrow> bool" where
  "fully_defined vol \<longleftrightarrow> list_all (\<lambda>x. x \<noteq> None) (voxels vol)"

text \<open>
  Modelled from the spec: the validity invariant of a coordinate triple (slice, row,
  column), each coordinate from 0 up to its extent, the extent excluded.
\<close>

definition in_bounds :: "volume \<Rightarrow> int \<Rightarrow> int \<Rightarrow> int \<Rightarrow> bool" where
  "in_bounds vol s r c \<longleftrightarrow>
     0 \<le> s \<and> s < depth vol \<and> 0 \<le> r \<and> r < rows vol \<and> 0 \<le> c \<and> c < cols vol"

text \<open>
  Modelled from the spec: the position of a cell in the flat buffer (the indexing of
  \<^verbatim>\<open>MyImage3D::Index\<close> is missing). Columns vary fastest, then rows, then slices.
\<close>

definition offset :: "volume \<Rightarrow> int \<Rightarrow> int \<Rightarrow> int \<Rightarrow> nat" where
  "offset vol s r c = nat ((s * rows vol + r) * cols vol + c)"

subsection \<open>Operations of the volume\<close>

text \<open>
  Every operation takes the volume and returns its outcome together with the volume
  afterwards, so that what a failing operation does to the volume is visible.
\<close>

type_synonym 'a outcome = "(error + 'a) \<times> volume"

text \<open>
  Modelled from the spec: \<^verbatim>\<open>MyImage3D::Set\<close> (the spec's \<open>allocate\<close>), missing with
  \<^verbatim>\<open>MyImage3D.h\<close>. It fails with \<open>InvalidDimension\<close> if an argument is not positive,
  and otherwise replaces the volume by one of undefined samples.
\<close>

definition Set :: "volume \<Rightarrow> int \<Rightarrow> int \<Rightarrow> int \<Rightarrow> unit outcome" where
  "Set vol d r c =
     (if d \<le> 0 \<or> r \<le> 0 \<or> c \<le> 0 then (Inl InvalidDimension, vol)
      else (Inr (), \<lparr>depth = d, rows = r, cols = c,
                      voxels = replicate (nat (d * r * c)) None\<rparr>))"

text \<open>
  Modelled from the spec: \<^verbatim>\<open>MyImage3D::FillInWith\<close> (the spec's \<open>fill\<close>), missing with
  \<^verbatim>\<open>MyImage3D.h\<close>. Every sample is set to the value; there is no return value and
  no failure.
\<close>

definition FillInWith :: "volume \<Rightarrow> sample \<Rightarrow> volume" where
  "FillInWith vol v = vol\<lparr>voxels := map (\<lambda>_. Some v) (voxels vol)\<rparr>"

text \<open>
  Modelled from the spec: \<^verbatim>\<open>MyImage3D::Index\<close> used as a value (the spec's
  \<open>at(s, r, c)\<close>, read), missing with \<^verbatim>\<open>MyImage3D.h\<close>. It fails with \<open>OutOfBounds\<close>
  if a coordinate is outside its extent and returns the sample of the cell otherwise.
\<close>

definition Index :: "volume \<Rightarrow> int \<Rightarrow> int \<Rightarrow> int \<Rightarrow> sample outcome" where
  "Index vol s r c =
     (if \<not> in_bounds vol s r c then (Inl OutOfBounds, vol)
      else case voxels vol ! offset vol s r c of
             None \<Rightarrow> (Inl Uninitialised, vol)
           | Some x \<Rightarrow> (Inr x, vol))"

text \<open>
  Modelled from the spec: \<^verbatim>\<open>MyImage3D::Index\<close> used as the target of an assignment
  (the spec's \<open>at(s, r, c) = value\<close>), missing with \<^verbatim>\<open>MyImage3D.h\<close>.
\<close>

definition Index_assign :: "volume \<Rightarrow> int \<Rightarrow> int \<Rightarrow> int \<Rightarrow> sample \<Rightarrow> unit outcome" where
  "Index_assign vol s r c v =
     (if \<not> in_bounds vol s r c then (Inl OutOfBounds, vol)
      else (Inr (), vol\<lparr>voxels := (voxels vol)[offset vol s r c := Some v]\<rparr>))"

text \<open>
  Modelled from the spec: \<^verbatim>\<open>vtkImageData::GetDimensions\<close> of the toolkit, which
  fills \<^verbatim>\<open>dims_xyz\<close> with the extents along x (columns), y (rows) and z (slices).
\<close>

definition GetDimensions :: "volume \<Rightarrow> int list" where
  "GetDimensions vol = [cols vol, rows vol, depth vol]"

subsection \<open>The scan for the maximum (main, lines 186 to 199)\<close>

text \<open>
  The loop body \<^verbatim>\<open>if(image3d.Index(s,r,c)>maximum) maximum = image3d.Index(s,r,c);\<close>
  reads the cell, compares and, when the cell is larger, reads it again into
  \<^verbatim>\<open>maximum\<close>. The result is the new value of \<^verbatim>\<open>maximum\<close>.
\<close>

definition scan_body :: "volume \<Rightarrow> int \<Rightarrow> int \<Rightarrow> int \<Rightarrow> sample \<Rightarrow> sample outcome" where
  "scan_body vol s r c maxi =
     (case Index vol s r c of
        (Inl e, vol1) \<Rightarrow> (Inl e, vol1)
      | (Inr x, vol1) \<Rightarrow> if x > maxi then Index vol1 s r c else (Inr maxi, vol1))"

text \<open>\<^verbatim>\<open>for(int c=0; c<dims_xyz[0]; c++)\<close>, entered with the current value of \<open>c\<close>.\<close>

function loop_c :: "int list \<Rightarrow> volume \<Rightarrow> int \<Rightarrow> int \<Rightarrow> int \<Rightarrow> sample \<Rightarrow> sample outcome" where
  "loop_c dims_xyz vol s r c maxi =
     (if c < dims_xyz ! 0 then
        (case scan_body vol s r c maxi of
           (Inl e, vol1) \<Rightarrow> (Inl e, vol1)
         | (Inr maxi1, vol1) \<Rightarrow> loop_c dims_xyz vol1 s r (c + 1) maxi1)
      else (Inr maxi, vol))"
  by pat_completeness auto
termination
  by (relation "measure (\<lambda>(dims_xyz, vol, s, r, c, maxi). nat (dims_xyz ! 0 - c))") auto

declare loop_c.simps [simp del]

text \<open>\<^verbatim>\<open>for(int r=0; r<dims_xyz[1]; r++)\<close>, entered with the current value of \<open>r\<close>.\<close>

function loop_r :: "int list \<Rightarrow> volume \<Rightarrow> int \<Rightarrow> int \<Rightarrow> sample \<Rightarrow> sample outcome" where
  "loop_r dims_xyz vol s r maxi =
     (if r < dims_xyz ! 1 then
        (case loop_c dims_xyz vol s r 0 maxi of
           (Inl e, vol1) \<Rightarrow> (Inl e, vol1)
         | (Inr maxi1, vol1) \<Rightarrow> loop_r dims_xyz vol1 s (r + 1) maxi1)
      else (Inr maxi, vol))"
  by pat_completeness auto
termination
  by (relation "measure (\<lambda>(dims_xyz, vol, s, r, maxi). nat (dims_xyz ! 1 - r))") auto

declare loop_r.simps [simp del]

text \<open>\<^verbatim>\<open>for(int s=0; s<dims_xyz[2]; s++)\<close>, entered with the current value of \<open>s\<close>.\<close>

function loop_s :: "int list \<Rightarrow> volume \<Rightarrow> int \<Rightarrow> sample \<Rightarrow> sample outcome" where
  "loop_s dims_xyz vol s maxi =
     (if s < dims_xyz ! 2 then
        (case loop_r dims_xyz vol s 0 maxi of
           (Inl e, vol1) \<Rightarrow> (Inl e, vol1)
         | (Inr maxi1, vol1) \<Rightarrow> loop_s dims_xyz vol1 (s + 1) maxi1)
      else (Inr maxi, vol))"
  by pat_completeness auto
termination
  by (relation "measure (\<lambda>(dims_xyz, vol, s, maxi). nat (dims_xyz ! 2 - s))") auto

declare loop_s.simps [simp del]

text \<open>
  Lines 186 to 199: \<^verbatim>\<open>maximum = image3d.Index(0,0,0);\<close>, then the dimensions are
  fetched and the three nested loops run over every cell, the cell (0,0,0) included.
\<close>

definition scan :: "volume \<Rightarrow> sample outcome" where
  "scan vol =
     (case Index vol 0 0 0 of
        (Inl e, vol1) \<Rightarrow> (Inl e, vol1)
      | (Inr maxi, vol1) \<Rightarrow> loop_s (GetDimensions vol1) vol1 0 maxi)"

text \<open>
  The operation \<open>maximum()\<close> of the specification is this scan. The source has no
  function of that name: the scan stands in \<^verbatim>\<open>main\<close>, it starts with the read of
  the cell (0,0,0) and nothing is checked before it.
\<close>

definition maximum :: "volume \<Rightarrow> sample outcome" where
  "maximum vol = scan vol"

subsection \<open>The scenario of main (lines 171 to 199)\<close>

text \<open>Sequencing: a failed step ends the run, as an error of the program would.\<close>

definition and_then :: "unit outcome \<Rightarrow> (volume \<Rightarrow> 'a outcome) \<Rightarrow> 'a outcome" where
  "and_then p f = (case p of (Inl e, vol) \<Rightarrow> (Inl e, vol) | (Inr _, vol) \<Rightarrow> f vol)"

text \<open>Lines 171 to 183: the image is created, filled with 0 and six voxels are written.\<close>

definition main_image :: "unit outcome" where
  "main_image =
     and_then (Set MyImage3D_new 10 10 10) (\<lambda>image3d.
     and_then (Inr (), FillInWith image3d 0) (\<lambda>image3d.
     and_then (Index_assign image3d 1 2 3 15) (\<lambda>image3d.
     and_then (Index_assign image3d 4 2 2 5) (\<lambda>image3d.
     and_then (Index_assign image3d 8 6 3 7) (\<lambda>image3d.
     and_then (Index_assign image3d 5 6 8 20000) (\<lambda>image3d.
     and_then (Index_assign image3d 3 3 3 1) (\<lambda>image3d.
     Index_assign image3d 1 1 1 15)))))))"

text \<open>Lines 171 to 199: the scenario followed by the scan, as \<^verbatim>\<open>main\<close> runs it.\<close>

definition main_maximum :: "sample outcome" where
  "main_maximum = and_then main_image scan"

subsection \<open>The scan that starts inside the loop\<close>

text \<open>
  The specification allows a reimplementation to drop the initialisation from the cell
  (0,0,0) and to start the scan with the first cell met inside the loop. This second
  scan follows those words: the running maximum is absent until the first cell is
  read, and from then on it is updated by the loop body of the source.
\<close>

definition some_outcome :: "sample outcome \<Rightarrow> sample option outcome" where
  "some_outcome p = (case p of (Inl e, vol) \<Rightarrow> (Inl e, vol) | (Inr x, vol) \<Rightarrow> (Inr (Some x), vol))"

definition scan_body_alt ::
  "volume \<Rightarrow> int \<Rightarrow> int \<Rightarrow> int \<Rightarrow> sample option \<Rightarrow> sample option outcome" where
  "scan_body_alt vol s r c cur =
     (case cur of
        None \<Rightarrow> some_outcome (Index vol s r c)
      | Some maxi \<Rightarrow> some_outcome (scan_body vol s r c maxi))"

function loop_c_alt ::
  "int list \<Rightarrow> volume \<Rightarrow> int \<Rightarrow> int \<Rightarrow> int \<Rightarrow> sample option \<Rightarrow> sample option outcome" where
  "loop_c_alt dims_xyz vol s r c cur =
     (if c < dims_xyz ! 0 then
        (case scan_body_alt vol s r c cur of
           (Inl e, vol1) \<Rightarrow> (Inl e, vol1)
         | (Inr cur1, vol1) \<Rightarrow> loop_c_alt dims_xyz vol1 s r (c + 1) cur1)
      else (Inr cur, vol))"
  by pat_completeness auto
termination
  by (relation "measure (\<lambda>(dims_xyz, vol, s, r, c, cur). nat (dims_xyz ! 0 - c))") auto

declare loop_c_alt.simps [simp del]

function loop_r_alt ::
  "int list \<Rightarrow> volume \<Rightarrow> int \<Rightarrow> int \<Rightarrow> sample option \<Rightarrow> sample option outcome" where
  "loop_r_alt dims_xyz vol s r cur =
     (if r < dims_xyz ! 1 then
        (case loop_c_alt dims_xyz vol s r 0 cur of
           (Inl e, vol1) \<Rightarrow> (Inl e, vol1)
         | (Inr cur1, vol1) \<Rightarrow> loop_r_alt dims_xyz vol1 s (r + 1) cur1)
      else (Inr cur, vol))"
  by pat_completeness auto
termination
  by (relation "measure (\<lambda>(dims_xyz, vol, s, r, cur). nat (dims_xyz ! 1 - r))") auto

declare loop_r_alt.simps [simp del]

function loop_s_alt ::
  "int list \<Rightarrow> volume \<Rightarrow> int \<Rightarrow> sample option \<Rightarrow> sample option outcome" where
  "loop_s_alt dims_xyz vol s cur =
     (if s < dims_xyz ! 2 then
        (case loop_r_alt dims_xyz vol s 0 cur of
           (Inl e, vol1) \<Rightarrow> (Inl e, vol1)
         | (Inr cur1, vol1) \<Rightarrow> loop_s_alt dims_xyz vol1 (s + 1) cur1)
      else (Inr cur, vol))"
  by pat_completeness auto
termination
  by (relation "measure (\<lambda>(dims_xyz, vol, s, cur). nat (dims_xyz ! 2 - s))") auto

declare loop_s_alt.simps [simp del]

text \<open>A scan that met no cell has no maximum to return: the volume is empty.\<close>

definition scan_alt :: "volume \<Rightarrow> sample outcome" where
  "scan_alt vol =
     (case loop_s_alt (GetDimensions vol) vol 0 None of
        (Inl e, vol1) \<Rightarrow> (Inl e, vol1)
      | (Inr None, vol1) \<Rightarrow> (Inl EmptyVolume, vol1)
      | (Inr (Some maxi), vol1) \<Rightarrow> (Inr maxi, vol1))"

subsection \<open>Notions used in the statements\<close>

text \<open>The content of a defined cell, read straight from the buffer.\<close>

definition cell :: "volume \<Rightarrow> int \<Rightarrow> int \<Rightarrow> int \<Rightarrow> sample" where
  "cell vol s r c = the (voxels vol ! offset vol s r c)"

text \<open>All valid coordinate triples of a volume.\<close>

definition coords :: "volume \<Rightarrow> (int \<times> int \<times> int) set" where
  "coords vol = {0..<depth vol} \<times> {0..<rows vol} \<times> {0..<cols vol}"

text \<open>A small volume of two slices, one row and two columns, every cell written.\<close>

definition example_volume :: volume where
  "example_volume =
     \<lparr>depth = 2, rows = 1, cols = 2, voxels = [Some 3, Some 9, Some 4, Some 1]\<rparr>"


section \<open>Properties of the model\<close>

subsection \<open>Arithmetic of the flat buffer\<close>

lemma flat_bound:
  fixes s r c D R C :: int
  assumes "0 \<le> s" "s < D" "0 \<le> r" "r < R" "0 \<le> c" "c < C"
  shows "(s * R + r) * C + c < D * R * C"
proof -
  have "s + 1 \<le> D" using assms by simp
  then have "(s + 1) * R \<le> D * R" using assms by (intro mult_right_mono) auto
  then have "s * R + r + 1 \<le> D * R" using assms by (simp add: algebra_simps)
  then have "(s * R + r + 1) * C \<le> D * R * C" using assms by (intro mult_right_mono) auto
  then show ?thesis using assms by (simp add: algebra_simps)
qed

lemma flat_nonneg:
  fixes s r c R C :: int
  assumes "0 \<le> s" "0 \<le> r" "r < R" "0 \<le> c" "c < C"
  shows "0 \<le> (s * R + r) * C + c"
  using assms by simp

lemma flat_inj:
  fixes s r c s' r' c' R C :: int
  assumes b: "0 \<le> r" "r < R" "0 \<le> c" "c < C" "0 \<le> r'" "r' < R" "0 \<le> c'" "c' < C"
    and eq: "(s * R + r) * C + c = (s' * R + r') * C + c'"
  shows "s = s' \<and> r = r' \<and> c = c'"
proof -
  have m1: "((s * R + r) * C + c) mod C = c" and m2: "((s' * R + r') * C + c') mod C = c'"
    using b by simp_all
  have c: "c = c'"
    using arg_cong [OF eq, of "\<lambda>x. x mod C"] unfolding m1 m2 .
  have d1: "((s * R + r) * C + c) div C = s * R + r"
    and d2: "((s' * R + r') * C + c') div C = s' * R + r'"
    using b by simp_all
  have e2: "s * R + r = s' * R + r'"
    using arg_cong [OF eq, of "\<lambda>x. x div C"] unfolding d1 d2 .
  have m3: "(s * R + r) mod R = r" and m4: "(s' * R + r') mod R = r'"
    using b by simp_all
  have r: "r = r'"
    using arg_cong [OF e2, of "\<lambda>x. x mod R"] unfolding m3 m4 .
  have d3: "(s * R + r) div R = s" and d4: "(s' * R + r') div R = s'"
    using b by simp_all
  have "s = s'"
    using arg_cong [OF e2, of "\<lambda>x. x div R"] unfolding d3 d4 .
  with c r show ?thesis by simp
qed

lemma offset_in_buffer:
  assumes "volume_inv vol" "in_bounds vol s r c"
  shows "offset vol s r c < length (voxels vol)"
  using assms flat_bound [of s "depth vol" r "rows vol" c "cols vol"]
  by (simp add: volume_inv_def in_bounds_def offset_def nat_less_iff)

lemma offset_inj:
  assumes "in_bounds vol s r c" "in_bounds vol s' r' c'"
    and "offset vol s r c = offset vol s' r' c'"
  shows "s = s' \<and> r = r' \<and> c = c'"
proof -
  have "0 \<le> (s * rows vol + r) * cols vol + c" "0 \<le> (s' * rows vol + r') * cols vol + c'"
    using assms by (simp_all add: in_bounds_def)
  with assms(3) have "(s * rows vol + r) * cols vol + c = (s' * rows vol + r') * cols vol + c'"
    by (simp add: offset_def)
  then show ?thesis
    using assms(1,2) flat_inj [of r "rows vol" c "cols vol" r' c' s s']
    by (simp add: in_bounds_def)
qed

subsection \<open>The scan computes a maximum\<close>

lemma Max_insert_max:
  fixes a b :: "'a::linorder"
  assumes "finite S"
  shows "Max (insert (max a b) S) = Max (insert a (insert b S))"
  using assms by (cases "S = {}") (simp_all add: max.assoc)

lemma Max_insert_Max:
  fixes m :: "'a::linorder"
  assumes "finite A" "finite B"
  shows "Max (insert (Max (insert m A)) B) = Max (insert m (A \<union> B))"
proof (cases "B = {}")
  case True
  then show ?thesis by simp
next
  case False
  have "Max (insert m (A \<union> B)) = Max (insert m A \<union> B)" by simp
  also have "\<dots> = max (Max (insert m A)) (Max B)"
    using assms False by (intro Max_Un) auto
  also have "\<dots> = Max (insert (Max (insert m A)) B)"
    using assms False by simp
  finally show ?thesis by simp
qed

lemma Index_snd: "snd (Index vol s r c) = vol"
  by (simp add: Index_def split: option.split)

lemma scan_body_value:
  assumes "Index vol s r c = (Inr x, vol)"
  shows "scan_body vol s r c m = (Inr (max m x), vol)"
  using assms by (auto simp: scan_body_def max_def)

lemma loop_c_max:
  assumes "\<forall>c'. c \<le> c' \<and> c' < dims ! 0 \<longrightarrow> Index vol s r c' = (Inr (f c'), vol)"
  shows "loop_c dims vol s r c m = (Inr (Max (insert m (f ` {c..<dims ! 0}))), vol)"
  using assms
proof (induction dims vol s r c m rule: loop_c.induct)
  case (1 dims vol s r c m)
  show ?case
  proof (cases "c < dims ! 0")
    case False
    then show ?thesis by (subst loop_c.simps) simp
  next
    case True
    have b: "scan_body vol s r c m = (Inr (max m (f c)), vol)"
      using "1.prems" True by (intro scan_body_value) simp
    have "loop_c dims vol s r (c + 1) (max m (f c)) =
          (Inr (Max (insert (max m (f c)) (f ` {c + 1..<dims ! 0}))), vol)"
      using "1.prems" by (intro "1.IH" [OF True b [symmetric] refl]) simp
    moreover have "{c..<dims ! 0} = insert c {c + 1..<dims ! 0}"
      using True by auto
    ultimately show ?thesis
      using True b by (subst loop_c.simps) (simp add: Max_insert_max)
  qed
qed

lemma loop_r_max:
  assumes "\<forall>r' c'. r \<le> r' \<and> r' < dims ! 1 \<and> 0 \<le> c' \<and> c' < dims ! 0 \<longrightarrow>
             Index vol s r' c' = (Inr (f r' c'), vol)"
  shows "loop_r dims vol s r m =
         (Inr (Max (insert m ((\<lambda>(r', c'). f r' c') ` ({r..<dims ! 1} \<times> {0..<dims ! 0})))), vol)"
  using assms
proof (induction dims vol s r m rule: loop_r.induct)
  case (1 dims vol s r m)
  let ?cs = "{0..<dims ! 0}"
  let ?F = "\<lambda>(r', c'). f r' c'"
  show ?case
  proof (cases "r < dims ! 1")
    case False
    then show ?thesis by (subst loop_r.simps) simp
  next
    case True
    let ?m1 = "Max (insert m (f r ` ?cs))"
    have b: "loop_c dims vol s r 0 m = (Inr ?m1, vol)"
      using "1.prems" True by (intro loop_c_max) simp
    have "loop_r dims vol s (r + 1) ?m1 =
          (Inr (Max (insert ?m1 (?F ` ({r + 1..<dims ! 1} \<times> ?cs)))), vol)"
      using "1.prems" by (intro "1.IH" [OF True b [symmetric] refl]) simp
    moreover have "{r..<dims ! 1} = insert r {r + 1..<dims ! 1}"
      using True by auto
    then have "?F ` ({r..<dims ! 1} \<times> ?cs) = f r ` ?cs \<union> ?F ` ({r + 1..<dims ! 1} \<times> ?cs)"
      by auto
    ultimately show ?thesis
      using True b
      by (subst loop_r.simps) (simp add: Max_insert_Max)
  qed
qed

lemma loop_s_max:
  assumes "\<forall>s' r' c'. s \<le> s' \<and> s' < dims ! 2 \<and> 0 \<le> r' \<and> r' < dims ! 1 \<and> 0 \<le> c' \<and> c' < dims ! 0 \<longrightarrow>
             Index vol s' r' c' = (Inr (f s' r' c'), vol)"
  shows "loop_s dims vol s m =
         (Inr (Max (insert m ((\<lambda>(s', r', c'). f s' r' c') `
                     ({s..<dims ! 2} \<times> {0..<dims ! 1} \<times> {0..<dims ! 0})))), vol)"
  using assms
proof (induction dims vol s m rule: loop_s.induct)
  case (1 dims vol s m)
  let ?rc = "{0..<dims ! 1} \<times> {0..<dims ! 0}"
  let ?F = "\<lambda>(s', r', c'). f s' r' c'"
  show ?case
  proof (cases "s < dims ! 2")
    case False
    then show ?thesis by (subst loop_s.simps) simp
  next
    case True
    let ?A = "(\<lambda>(r', c'). f s r' c') ` ?rc"
    let ?m1 = "Max (insert m ?A)"
    have b: "loop_r dims vol s 0 m = (Inr ?m1, vol)"
      using "1.prems" True by (intro loop_r_max) simp
    have "loop_s dims vol (s + 1) ?m1 =
          (Inr (Max (insert ?m1 (?F ` ({s + 1..<dims ! 2} \<times> ?rc)))), vol)"
      using "1.prems" by (intro "1.IH" [OF True b [symmetric] refl]) simp
    moreover have "?F ` ({s..<dims ! 2} \<times> ?rc) = ?A \<union> ?F ` ({s + 1..<dims ! 2} \<times> ?rc)"
    proof -
      have "{s..<dims ! 2} = insert s {s + 1..<dims ! 2}"
        using True by auto
      then have "{s..<dims ! 2} \<times> ?rc = ({s} \<times> ?rc) \<union> ({s + 1..<dims ! 2} \<times> ?rc)"
        by blast
      moreover have "?F ` ({s} \<times> ?rc) = ?A"
        by force
      ultimately show ?thesis
        by (simp only: image_Un)
    qed
    ultimately show ?thesis
      using True b
      by (subst loop_s.simps) (simp add: Max_insert_Max)
  qed
qed

lemma in_bounds_coords: "in_bounds vol s r c \<longleftrightarrow> (s, r, c) \<in> coords vol"
  by (auto simp: in_bounds_def coords_def)

lemma Index_defined:
  assumes "volume_inv vol" "fully_defined vol" "in_bounds vol s r c"
  shows "Index vol s r c = (Inr (cell vol s r c), vol)"
proof -
  have "offset vol s r c < length (voxels vol)"
    using assms by (intro offset_in_buffer)
  with assms(2) have "voxels vol ! offset vol s r c \<noteq> None"
    by (simp add: fully_defined_def list_all_length)
  with assms(3) show ?thesis
    by (auto simp: Index_def cell_def)
qed

lemma scan_max:
  assumes "is_allocated vol" "volume_inv vol" "fully_defined vol"
  shows "scan vol = (Inr (Max ((\<lambda>(s, r, c). cell vol s r c) ` coords vol)), vol)"
proof -
  let ?F = "\<lambda>(s, r, c). cell vol s r c"
  have o: "in_bounds vol 0 0 0"
    using assms(1) by (simp add: is_allocated_def in_bounds_def)
  then have i0: "Index vol 0 0 0 = (Inr (cell vol 0 0 0), vol)"
    using assms by (intro Index_defined)
  have "loop_s (GetDimensions vol) vol 0 (cell vol 0 0 0) =
        (Inr (Max (insert (cell vol 0 0 0) (?F `
           ({0..<GetDimensions vol ! 2} \<times> {0..<GetDimensions vol ! 1} \<times> {0..<GetDimensions vol ! 0})))), vol)"
    using assms by (intro loop_s_max) (simp add: GetDimensions_def Index_defined in_bounds_def)
  then have "scan vol = (Inr (Max (insert (cell vol 0 0 0) (?F ` coords vol))), vol)"
    using i0 by (simp add: scan_def coords_def GetDimensions_def)
  moreover have "cell vol 0 0 0 \<in> ?F ` coords vol"
    using o by (force simp: in_bounds_coords)
  ultimately show ?thesis
    by (simp add: insert_absorb)
qed

lemma finite_coords: "finite (coords vol)"
  by (simp add: coords_def)


subsection \<open>The example volume\<close>

lemma ex_alloc: "is_allocated example_volume" by (simp add: is_allocated_def example_volume_def)
lemma ex_inv: "volume_inv example_volume" by (simp add: volume_inv_def example_volume_def)
lemma ex_def: "fully_defined example_volume" by (simp add: fully_defined_def example_volume_def)

subsection \<open>The operations keep the buffer well formed\<close>

lemma MyImage3D_new_inv: "volume_inv MyImage3D_new"
  by (simp add: volume_inv_def MyImage3D_new_def)

lemma Set_inv:
  assumes "0 < d" "0 < r" "0 < c"
  shows "volume_inv (snd (Set vol d r c))" "is_allocated (snd (Set vol d r c))"
  using assms by (simp_all add: Set_def volume_inv_def is_allocated_def)

lemma FillInWith_inv: "volume_inv vol \<Longrightarrow> volume_inv (FillInWith vol v)"
  by (simp add: FillInWith_def volume_inv_def)

lemma FillInWith_defined: "fully_defined (FillInWith vol v)"
  by (simp add: FillInWith_def fully_defined_def list_all_iff)

lemma Index_assign_inv: "volume_inv vol \<Longrightarrow> volume_inv (snd (Index_assign vol s r c v))"
  by (simp add: Index_assign_def volume_inv_def)

lemma Index_assign_defined:
  assumes "fully_defined vol"
  shows "fully_defined (snd (Index_assign vol s r c v))"
proof -
  have "set ((voxels vol)[offset vol s r c := Some v]) \<subseteq> insert (Some v) (set (voxels vol))"
    by (rule set_update_subset_insert)
  with assms show ?thesis
    by (auto simp: Index_assign_def fully_defined_def list_all_iff)
qed

subsection \<open>The scan does not change the volume\<close>

lemma scan_body_snd: "snd (scan_body vol s r c m) = vol"
  by (cases "Index vol s r c") (use Index_snd [of vol s r c] in
      \<open>auto simp: scan_body_def Index_snd split: sum.split\<close>)

lemma loop_c_snd: "snd (loop_c dims vol s r c m) = vol"
proof (induction dims vol s r c m rule: loop_c.induct)
  case (1 dims vol s r c m)
  obtain a vol1 where b: "scan_body vol s r c m = (a, vol1)"
    by (cases "scan_body vol s r c m")
  with scan_body_snd [of vol s r c m] have v: "vol1 = vol" by simp
  show ?case
  proof (cases "c < dims ! 0")
    case False
    then show ?thesis by (subst loop_c.simps) simp
  next
    case True
    show ?thesis
    proof (cases a)
      case (Inl e)
      with True b v show ?thesis
        by (subst loop_c.simps) simp
    next
      case (Inr m1)
      with True b v "1.IH" [OF True b [symmetric], of m1] show ?thesis
        by (subst loop_c.simps) simp
    qed
  qed
qed

lemma loop_r_snd: "snd (loop_r dims vol s r m) = vol"
proof (induction dims vol s r m rule: loop_r.induct)
  case (1 dims vol s r m)
  obtain a vol1 where b: "loop_c dims vol s r 0 m = (a, vol1)"
    by (cases "loop_c dims vol s r 0 m")
  with loop_c_snd [of dims vol s r 0 m] have v: "vol1 = vol" by simp
  show ?case
  proof (cases "r < dims ! 1")
    case False
    then show ?thesis by (subst loop_r.simps) simp
  next
    case True
    show ?thesis
    proof (cases a)
      case (Inl e)
      with True b v show ?thesis
        by (subst loop_r.simps) simp
    next
      case (Inr m1)
      with True b v "1.IH" [OF True b [symmetric], of m1] show ?thesis
        by (subst loop_r.simps) simp
    qed
  qed
qed

lemma loop_s_snd: "snd (loop_s dims vol s m) = vol"
proof (induction dims vol s m rule: loop_s.induct)
  case (1 dims vol s m)
  obtain a vol1 where b: "loop_r dims vol s 0 m = (a, vol1)"
    by (cases "loop_r dims vol s 0 m")
  with loop_r_snd [of dims vol s 0 m] have v: "vol1 = vol" by simp
  show ?case
  proof (cases "s < dims ! 2")
    case False
    then show ?thesis by (subst loop_s.simps) simp
  next
    case True
    show ?thesis
    proof (cases a)
      case (Inl e)
      with True b v show ?thesis
        by (subst loop_s.simps) simp
    next
      case (Inr m1)
      with True b v "1.IH" [OF True b [symmetric], of m1] show ?thesis
        by (subst loop_s.simps) simp
    qed
  qed
qed

lemma scan_snd: "snd (scan vol) = vol"
proof -
  obtain a vol1 where b: "Index vol 0 0 0 = (a, vol1)"
    by (cases "Index vol 0 0 0")
  with Index_snd [of vol 0 0 0] have v: "vol1 = vol" by simp
  show ?thesis
    using b v by (cases a) (simp_all add: scan_def loop_s_snd)
qed

lemma maximum_snd: "snd (maximum vol) = vol"
  by (simp add: maximum_def scan_snd)

subsection \<open>How the scan fails\<close>









subsection \<open>The scan that starts inside the loop\<close>

lemma loop_c_alt_Some:
  "loop_c_alt dims vol s r c (Some m) = some_outcome (loop_c dims vol s r c m)"
proof (induction dims vol s r c m rule: loop_c.induct)
  case (1 dims vol s r c m)
  show ?case
  proof (cases "c < dims ! 0")
    case False
    then show ?thesis
      by (subst loop_c_alt.simps, subst loop_c.simps) (simp add: some_outcome_def)
  next
    case True
    obtain a vol1 where b: "scan_body vol s r c m = (a, vol1)"
      by (cases "scan_body vol s r c m")
    show ?thesis
    proof (cases a)
      case (Inl e)
      with True b show ?thesis
        by (subst loop_c_alt.simps, subst loop_c.simps)
           (simp add: some_outcome_def scan_body_alt_def)
    next
      case (Inr m1)
      with True b "1.IH" [OF True b [symmetric], of m1] show ?thesis
        by (subst loop_c_alt.simps, subst loop_c.simps)
           (simp add: some_outcome_def scan_body_alt_def)
    qed
  qed
qed

lemma loop_r_alt_Some:
  "loop_r_alt dims vol s r (Some m) = some_outcome (loop_r dims vol s r m)"
proof (induction dims vol s r m rule: loop_r.induct)
  case (1 dims vol s r m)
  show ?case
  proof (cases "r < dims ! 1")
    case False
    then show ?thesis
      by (subst loop_r_alt.simps, subst loop_r.simps) (simp add: some_outcome_def)
  next
    case True
    obtain a vol1 where b: "loop_c dims vol s r 0 m = (a, vol1)"
      by (cases "loop_c dims vol s r 0 m")
    show ?thesis
    proof (cases a)
      case (Inl e)
      with True b show ?thesis
        by (subst loop_r_alt.simps, subst loop_r.simps)
           (simp add: some_outcome_def loop_c_alt_Some)
    next
      case (Inr m1)
      with True b "1.IH" [OF True b [symmetric], of m1] show ?thesis
        by (subst loop_r_alt.simps, subst loop_r.simps)
           (simp add: some_outcome_def loop_c_alt_Some)
    qed
  qed
qed

lemma loop_s_alt_Some:
  "loop_s_alt dims vol s (Some m) = some_outcome (loop_s dims vol s m)"
proof (induction dims vol s m rule: loop_s.induct)
  case (1 dims vol s m)
  show ?case
  proof (cases "s < dims ! 2")
    case False
    then show ?thesis
      by (subst loop_s_alt.simps, subst loop_s.simps) (simp add: some_outcome_def)
  next
    case True
    obtain a vol1 where b: "loop_r dims vol s 0 m = (a, vol1)"
      by (cases "loop_r dims vol s 0 m")
    show ?thesis
    proof (cases a)
      case (Inl e)
      with True b show ?thesis
        by (subst loop_s_alt.simps, subst loop_s.simps)
           (simp add: some_outcome_def loop_r_alt_Some)
    next
      case (Inr m1)
      with True b "1.IH" [OF True b [symmetric], of m1] show ?thesis
        by (subst loop_s_alt.simps, subst loop_s.simps)
           (simp add: some_outcome_def loop_r_alt_Some)
    qed
  qed
qed

text \<open>The first column pass of either scan, unfolded at the cell (0,0,0).\<close>

lemma loop_c_first:
  assumes "0 < dims ! 0" "Index vol s r 0 = (Inr x, vol)"
  shows "loop_c dims vol s r 0 x = loop_c dims vol s r 1 x"
  using assms by (subst loop_c.simps) (simp add: scan_body_def)

lemma loop_c_alt_first:
  assumes "0 < dims ! 0" "Index vol s r 0 = (Inr x, vol)"
  shows "loop_c_alt dims vol s r 0 None = some_outcome (loop_c dims vol s r 1 x)"
  using assms
  by (subst loop_c_alt.simps) (simp add: scan_body_alt_def some_outcome_def loop_c_alt_Some)

lemma loop_c_alt_fail:
  assumes "0 < dims ! 0" "Index vol s r 0 = (Inl e, vol)"
  shows "loop_c_alt dims vol s r 0 None = (Inl e, vol)"
  using assms
  by (subst loop_c_alt.simps) (simp add: scan_body_alt_def some_outcome_def)

lemma scan_alt_eq_scan:
  assumes "is_allocated vol"
  shows "scan_alt vol = scan vol"
proof -
  let ?d = "GetDimensions vol"
  have d: "0 < ?d ! 0" "0 < ?d ! 1" "0 < ?d ! 2"
    using assms by (simp_all add: is_allocated_def GetDimensions_def)
  obtain a vol1 where i: "Index vol 0 0 0 = (a, vol1)"
    by (cases "Index vol 0 0 0")
  with Index_snd [of vol 0 0 0] have v: "vol1 = vol" by simp
  show ?thesis
  proof (cases a)
    case (Inl e)
    with i v have f: "Index vol 0 0 0 = (Inl e, vol)" by simp
    have "loop_c_alt ?d vol 0 0 0 None = (Inl e, vol)"
      using d(1) f by (rule loop_c_alt_fail)
    then have "loop_r_alt ?d vol 0 0 None = (Inl e, vol)"
      using d(2) by (subst loop_r_alt.simps) simp
    then have "loop_s_alt ?d vol 0 None = (Inl e, vol)"
      using d(3) by (subst loop_s_alt.simps) simp
    then show ?thesis
      using f by (simp add: scan_alt_def scan_def)
  next
    case (Inr x)
    with i v have f: "Index vol 0 0 0 = (Inr x, vol)" by simp
    have c: "loop_c_alt ?d vol 0 0 0 None = some_outcome (loop_c ?d vol 0 0 0 x)"
      using loop_c_alt_first [OF d(1) f] loop_c_first [OF d(1) f] by simp
    have r: "loop_r_alt ?d vol 0 0 None = some_outcome (loop_r ?d vol 0 0 x)"
      using d(2) c
      by (subst loop_r_alt.simps, subst loop_r.simps)
         (auto simp: some_outcome_def loop_r_alt_Some split: prod.split sum.split)
    have s: "loop_s_alt ?d vol 0 None = some_outcome (loop_s ?d vol 0 x)"
      using d(3) r
      by (subst loop_s_alt.simps, subst loop_s.simps)
         (auto simp: some_outcome_def loop_s_alt_Some split: prod.split sum.split)
    show ?thesis
      using f s by (auto simp: scan_alt_def scan_def some_outcome_def split: prod.split sum.split)
  qed
qed

subsection \<open>The scenario of main\<close>

lemma scan_eqI:
  assumes "is_allocated vol" "volume_inv vol" "fully_defined vol"
    and at: "in_bounds vol s r c" "cell vol s r c = m"
    and ub: "\<forall>i<length (voxels vol). \<forall>x. voxels vol ! i = Some x \<longrightarrow> x \<le> m"
  shows "scan vol = (Inr m, vol)"
proof -
  let ?S = "(\<lambda>(s, r, c). cell vol s r c) ` coords vol"
  have "Max ?S = m"
  proof (rule Max_eqI)
    show "finite ?S" by (simp add: finite_coords)
    show "m \<in> ?S" using at by (force simp: in_bounds_coords)
    show "y \<le> m" if "y \<in> ?S" for y
    proof -
      from that obtain s' r' c' where b: "in_bounds vol s' r' c'" and y: "y = cell vol s' r' c'"
        by (auto simp: in_bounds_coords)
      have l: "offset vol s' r' c' < length (voxels vol)"
        using assms(2) b by (rule offset_in_buffer)
      with assms(3) have "voxels vol ! offset vol s' r' c' \<noteq> None"
        by (simp add: fully_defined_def list_all_length)
      then have "voxels vol ! offset vol s' r' c' = Some y"
        by (auto simp: y cell_def)
      with ub l show ?thesis by blast
    qed
  qed
  with assms(1-3) show ?thesis by (simp add: scan_max)
qed

lemma main_image_value:
  "main_image = (Inr (), \<lparr>depth = 10, rows = 10, cols = 10,
     voxels = (replicate 1000 (Some 0))
       [123 := Some 15, 422 := Some 5, 863 := Some 7, 568 := Some 20000,
        333 := Some 1, 111 := Some 15]\<rparr>)"
  by (simp add: main_image_def and_then_def Set_def FillInWith_def Index_assign_def
      in_bounds_def offset_def MyImage3D_new_def)

lemma main_scan:
  "scan (snd main_image) = (Inr 20000, snd main_image)"
proof (rule scan_eqI [where s = 5 and r = 6 and c = 8])
  show "is_allocated (snd main_image)"
    by (simp add: main_image_value is_allocated_def)
  show "volume_inv (snd main_image)"
    by (simp add: main_image_value volume_inv_def)
  show "fully_defined (snd main_image)"
    by (simp add: main_image_value fully_defined_def list_all_length nth_list_update)
  show "in_bounds (snd main_image) 5 6 8"
    by (simp add: main_image_value in_bounds_def)
  show "cell (snd main_image) 5 6 8 = 20000"
    by (simp add: main_image_value cell_def offset_def nth_list_update)
  show "\<forall>i<length (voxels (snd main_image)). \<forall>x.
          voxels (snd main_image) ! i = Some x \<longrightarrow> x \<le> 20000"
    by (auto simp add: main_image_value nth_list_update
        split: if_splits)
qed

subsection \<open>More on the example volume\<close>

lemma ex_bounds: "in_bounds example_volume 1 0 0"
  by (simp add: in_bounds_def example_volume_def)

lemma ex_out: "\<not> in_bounds example_volume 2 0 0"
  by (simp add: in_bounds_def example_volume_def)

lemma ex_maximum: "maximum example_volume = (Inr 9, example_volume)"
  by code_simp


section \<open>The claims\<close>

text \<open>
  C1. On an allocated volume whose cells are all defined, the scan returns a value
  that is stored in some cell and that no cell exceeds: the largest sample of the
  volume, and never a value above every stored one. The operation \<open>maximum\<close> is
  the scan on such a volume.
\<close>

theorem maximum_largest:
  assumes "is_allocated vol" "volume_inv vol" "fully_defined vol"
  shows "\<exists>m. maximum vol = (Inr m, vol) \<and> scan vol = (Inr m, vol) \<and>
           (\<exists>s r c. in_bounds vol s r c \<and> fst (Index vol s r c) = Inr m) \<and>
           (\<forall>s r c. in_bounds vol s r c \<longrightarrow> (\<exists>x. fst (Index vol s r c) = Inr x \<and> x \<le> m))"
proof -
  let ?F = "\<lambda>(s, r, c). cell vol s r c"
  let ?S = "?F ` coords vol"
  have fin: "finite ?S" by (simp add: finite_coords)
  have "in_bounds vol 0 0 0"
    using assms(1) by (simp add: is_allocated_def in_bounds_def)
  then have ne: "?S \<noteq> {}"
    by (auto simp: in_bounds_coords)
  have m: "maximum vol = (Inr (Max ?S), vol)" "scan vol = (Inr (Max ?S), vol)"
    using assms by (simp_all add: maximum_def scan_max)
  have "Max ?S \<in> ?S" using fin ne by (rule Max_in)
  then obtain s r c where "in_bounds vol s r c" "cell vol s r c = Max ?S"
    by (auto simp: in_bounds_coords)
  then have a: "\<exists>s r c. in_bounds vol s r c \<and> fst (Index vol s r c) = Inr (Max ?S)"
    using assms Index_defined by fastforce
  have b: "\<exists>x. fst (Index vol s r c) = Inr x \<and> x \<le> Max ?S" if "in_bounds vol s r c" for s r c
  proof -
    have "cell vol s r c \<in> ?S" using that by (force simp: in_bounds_coords)
    then have "cell vol s r c \<le> Max ?S" using fin by (intro Max_ge)
    then show ?thesis using assms that by (simp add: Index_defined)
  qed
  from m a b show ?thesis by blast
qed

theorem maximum_largest_witness:
  "is_allocated example_volume \<and> volume_inv example_volume \<and> fully_defined example_volume \<and>
   maximum example_volume = (Inr 9, example_volume) \<and>
   (\<exists>m. maximum example_volume = (Inr m, example_volume) \<and>
      scan example_volume = (Inr m, example_volume) \<and>
      (\<exists>s r c. in_bounds example_volume s r c \<and> fst (Index example_volume s r c) = Inr m) \<and>
      (\<forall>s r c. in_bounds example_volume s r c \<longrightarrow>
         (\<exists>x. fst (Index example_volume s r c) = Inr x \<and> x \<le> m)))"
  using maximum_largest [OF ex_alloc ex_inv ex_def] ex_alloc ex_inv ex_def ex_maximum
  by blast

text \<open>
  C2. The scenario of \<^verbatim>\<open>main\<close>: the volume is allocated as (10,10,10) and filled
  with 0, then 15 is written at (1,2,3), 5 at (4,2,2), 7 at (8,6,3), 20000 at (5,6,8),
  1 at (3,3,3) and 15 at (1,1,1). Every step succeeds, \<open>maximum\<close> on the resulting
  volume returns 20000, and so does the scan as \<^verbatim>\<open>main\<close> runs it.
\<close>

theorem main_maximum_20000:
  "fst main_image = Inr () \<and> fst (maximum (snd main_image)) = Inr 20000 \<and>
   fst main_maximum = Inr 20000"
proof -
  have ok: "fst main_image = Inr ()"
    by (simp add: main_image_value)
  have al: "is_allocated (snd main_image)"
    by (simp add: main_image_value is_allocated_def)
  then have mx: "fst (maximum (snd main_image)) = Inr 20000"
    by (simp add: maximum_def main_scan)
  have "fst main_maximum = fst (scan (snd main_image))"
    by (simp add: main_maximum_def and_then_def main_image_value)
  also have "\<dots> = Inr 20000"
    by (simp add: main_scan)
  finally have "fst main_maximum = Inr 20000" .
  with ok mx show ?thesis by blast
qed

text \<open>
  C3. For positive dimensions \<open>d\<close>, \<open>r\<close>, \<open>c\<close> and any value \<open>v\<close>, allocating the
  volume and filling it with \<open>v\<close> gives a volume in which every valid coordinate
  triple reads \<open>v\<close>.
\<close>

theorem Set_FillInWith_Index:
  assumes "0 < d" "0 < r" "0 < c"
    and "0 \<le> s" "s < d" "0 \<le> r'" "r' < r" "0 \<le> c'" "c' < c"
  shows "fst (Set vol d r c) = Inr () \<and>
         in_bounds (FillInWith (snd (Set vol d r c)) v) s r' c' \<and>
         Index (FillInWith (snd (Set vol d r c)) v) s r' c' =
           (Inr v, FillInWith (snd (Set vol d r c)) v)"
proof -
  let ?a = "snd (Set vol d r c)"
  let ?f = "FillInWith ?a v"
  have ok: "fst (Set vol d r c) = Inr ()"
    using assms by (simp add: Set_def)
  have dims: "depth ?f = d" "rows ?f = r" "cols ?f = c"
    using assms by (simp_all add: Set_def FillInWith_def)
  have b: "in_bounds ?f s r' c'"
    using assms dims by (simp add: in_bounds_def)
  have "volume_inv ?f"
    using assms by (intro FillInWith_inv Set_inv)
  then have "offset ?f s r' c' < length (voxels ?f)"
    using b by (rule offset_in_buffer)
  then have "voxels ?f ! offset ?f s r' c' = Some v"
    by (simp add: FillInWith_def)
  with b have "Index ?f s r' c' = (Inr v, ?f)"
    by (simp add: Index_def)
  with ok b show ?thesis by simp
qed

theorem Set_FillInWith_Index_witness:
  "fst (Set MyImage3D_new 10 10 10) = Inr () \<and>
   in_bounds (FillInWith (snd (Set MyImage3D_new 10 10 10)) 7) 9 0 4 \<and>
   Index (FillInWith (snd (Set MyImage3D_new 10 10 10)) 7) 9 0 4 =
     (Inr 7, FillInWith (snd (Set MyImage3D_new 10 10 10)) 7)"
  using Set_FillInWith_Index [of 10 10 10 9 0 4 MyImage3D_new 7] by simp

text \<open>
  C4. On a well-formed volume, writing \<open>v\<close> at a valid coordinate triple succeeds,
  reading the same triple afterwards returns \<open>v\<close>, the dimensions stay as they were
  and every other valid cell reads as before (an undefined cell stays undefined).
\<close>

theorem Index_assign_then_Index:
  assumes "volume_inv vol" "in_bounds vol s r c"
  shows "\<exists>vol'. Index_assign vol s r c v = (Inr (), vol') \<and>
           Index vol' s r c = (Inr v, vol') \<and>
           GetDimensions vol' = GetDimensions vol \<and>
           (\<forall>s' r' c'. in_bounds vol s' r' c' \<and> (s', r', c') \<noteq> (s, r, c) \<longrightarrow>
              in_bounds vol' s' r' c' \<and>
              fst (Index vol' s' r' c') = fst (Index vol s' r' c'))"
proof -
  let ?w = "vol\<lparr>voxels := (voxels vol)[offset vol s r c := Some v]\<rparr>"
  have a: "Index_assign vol s r c v = (Inr (), ?w)"
    using assms(2) by (simp add: Index_assign_def)
  have ib: "in_bounds ?w s' r' c' = in_bounds vol s' r' c'" for s' r' c'
    by (simp add: in_bounds_def)
  have off: "offset ?w s' r' c' = offset vol s' r' c'" for s' r' c'
    by (simp add: offset_def)
  have len: "offset vol s r c < length (voxels vol)"
    using assms by (rule offset_in_buffer)
  have rd: "Index ?w s r c = (Inr v, ?w)"
    using assms(2) len by (simp add: Index_def ib off)
  have dims: "GetDimensions ?w = GetDimensions vol"
    by (simp add: GetDimensions_def)
  have frame: "in_bounds ?w s' r' c' \<and> fst (Index ?w s' r' c') = fst (Index vol s' r' c')"
    if "in_bounds vol s' r' c'" "(s', r', c') \<noteq> (s, r, c)" for s' r' c'
  proof -
    have "offset vol s' r' c' \<noteq> offset vol s r c"
      using offset_inj [OF that(1) assms(2)] that(2) by auto
    then have "voxels ?w ! offset vol s' r' c' = voxels vol ! offset vol s' r' c'"
      by simp
    then show ?thesis
      using that(1) by (simp add: Index_def ib off split: option.split)
  qed
  from a rd dims frame show ?thesis by blast
qed

theorem Index_assign_then_Index_witness:
  "volume_inv example_volume \<and> in_bounds example_volume 1 0 0 \<and>
   (\<exists>vol'. Index_assign example_volume 1 0 0 8 = (Inr (), vol') \<and>
      Index vol' 1 0 0 = (Inr 8, vol') \<and>
      GetDimensions vol' = GetDimensions example_volume \<and>
      (\<forall>s' r' c'. in_bounds example_volume s' r' c' \<and> (s', r', c') \<noteq> (1, 0, 0) \<longrightarrow>
         in_bounds vol' s' r' c' \<and>
         fst (Index vol' s' r' c') = fst (Index example_volume s' r' c')))"
  using Index_assign_then_Index [OF ex_inv ex_bounds, of 8] ex_inv ex_bounds by simp

text \<open>
  C5. On an allocated volume, reading or writing at a coordinate triple with a
  coordinate outside its extent fails with \<open>OutOfBounds\<close>; in particular (10,0,0)
  on a volume allocated as (10,10,10) does.
\<close>

theorem Index_out_of_bounds:
  assumes "is_allocated vol" "\<not> in_bounds vol s r c"
  shows "Index vol s r c = (Inl OutOfBounds, vol) \<and>
         Index_assign vol s r c v = (Inl OutOfBounds, vol) \<and>
         fst (Index (snd (Set vol0 10 10 10)) 10 0 0) = Inl OutOfBounds \<and>
         fst (Index_assign (snd (Set vol0 10 10 10)) 10 0 0 v) = Inl OutOfBounds"
  using assms by (simp add: Index_def Index_assign_def Set_def in_bounds_def)

theorem Index_out_of_bounds_witness:
  "is_allocated example_volume \<and> \<not> in_bounds example_volume 2 0 0 \<and>
   Index example_volume 2 0 0 = (Inl OutOfBounds, example_volume) \<and>
   Index_assign example_volume 2 0 0 5 = (Inl OutOfBounds, example_volume)"
  using Index_out_of_bounds [OF ex_alloc ex_out, of 5] ex_alloc ex_out by simp




text \<open>
  C7. \<open>Set\<close> fails with \<open>InvalidDimension\<close> as soon as one of its three arguments is
  not positive, for instance on (0,5,5). With three positive arguments it succeeds and
  gives an allocated volume of these dimensions with one cell for each coordinate
  triple, the same whatever the volume was before.
\<close>

theorem Set_InvalidDimension:
  "(d \<le> 0 \<or> r \<le> 0 \<or> c \<le> 0 \<longrightarrow> Set vol d r c = (Inl InvalidDimension, vol)) \<and>
   Set vol 0 5 5 = (Inl InvalidDimension, vol) \<and>
   (0 < d \<and> 0 < r \<and> 0 < c \<longrightarrow>
      fst (Set vol d r c) = Inr () \<and>
      is_allocated (snd (Set vol d r c)) \<and> volume_inv (snd (Set vol d r c)) \<and>
      depth (snd (Set vol d r c)) = d \<and> rows (snd (Set vol d r c)) = r \<and>
      cols (snd (Set vol d r c)) = c \<and>
      length (voxels (snd (Set vol d r c))) = nat (d * r * c) \<and>
      snd (Set vol d r c) = snd (Set MyImage3D_new d r c))"
  by (simp add: Set_def is_allocated_def volume_inv_def)

theorem Set_InvalidDimension_witness:
  "Set example_volume 3 (-1) 2 = (Inl InvalidDimension, example_volume) \<and>
   fst (Set example_volume 2 3 4) = Inr () \<and>
   depth (snd (Set example_volume 2 3 4)) = 2 \<and>
   length (voxels (snd (Set example_volume 2 3 4))) = nat (2 * 3 * 4) \<and>
   snd (Set example_volume 2 3 4) = snd (Set MyImage3D_new 2 3 4)"
proof -
  have "Set example_volume 3 (-1) 2 = (Inl InvalidDimension, example_volume)"
    using Set_InvalidDimension [of 3 "-1" 2 example_volume] by simp
  moreover have "fst (Set example_volume 2 3 4) = Inr () \<and>
      depth (snd (Set example_volume 2 3 4)) = 2 \<and>
      length (voxels (snd (Set example_volume 2 3 4))) = nat (2 * 3 * 4) \<and>
      snd (Set example_volume 2 3 4) = snd (Set MyImage3D_new 2 3 4)"
  proof -
    have h: "(0::int) < 2 \<and> (0::int) < 3 \<and> (0::int) < 4" by simp
    show ?thesis
      using Set_InvalidDimension [of 2 3 4 example_volume] h by blast
  qed
  ultimately show ?thesis by blast
qed



text \<open>
  C9. On every allocated volume the scan of the source, which takes the cell (0,0,0)
  as its first candidate and then visits every cell, that one included, has the same
  outcome as the scan that takes its first candidate from the first cell met inside
  the loop. This holds whether or not every cell is defined.
\<close>

theorem scan_from_first_cell_same:
  assumes "is_allocated vol"
  shows "scan_alt vol = scan vol \<and> scan_alt vol = maximum vol"
  using assms by (simp add: scan_alt_eq_scan maximum_def)

theorem scan_from_first_cell_same_witness:
  "is_allocated example_volume \<and> fully_defined example_volume \<and>
   scan_alt example_volume = scan example_volume \<and>
   scan_alt example_volume = maximum example_volume \<and>
   maximum example_volume = (Inr 9, example_volume)"
  using scan_from_first_cell_same [OF ex_alloc] ex_alloc ex_def ex_maximum by blast

text \<open>
  C10. \<open>maximum\<close> only reads: the volume after the call is the volume before it, so
  the dimensions are the same and every coordinate triple reads as before.
\<close>

theorem maximum_read_only:
  "snd (maximum vol) = vol \<and>
   GetDimensions (snd (maximum vol)) = GetDimensions vol \<and>
   (\<forall>s r c. fst (Index (snd (maximum vol)) s r c) = fst (Index vol s r c))"
  by (simp add: maximum_snd)

end
